theory Spec2Isabelle
  imports Main Complex_Main
begin

section \<open>Values, state objects and the outside world of \<^verbatim>\<open>main.js\<close>\<close>

text \<open>
  A JavaScript value as far as \<^verbatim>\<open>main.js\<close> looks at one: what \<^verbatim>\<open>JSON.parse\<close> can return,
  plus \<^verbatim>\<open>undefined\<close> (what reading an absent property gives). An object is the list of its
  own properties in enumeration order, with pairwise distinct keys.
\<close>

datatype jsval =
    JUndefined
  | JNull
  | JBool bool
  | JNum real
  | JStr string
  | JArr "jsval list"
  | JObj "(string \<times> jsval) list"

text \<open>What \<^verbatim>\<open>ws.send\<close> is given: a plain text, or the text \<^verbatim>\<open>JSON.stringify\<close> made of a value.\<close>

datatype payload = Text string | JSON_stringify jsval

datatype js_error = TypeError | SyntaxError

text \<open>
  The module-level state objects imported from \<^verbatim>\<open>state.js\<close> are shared references; the model
  names each by its import name and keeps their contents in a store.
\<close>

datatype model_ref =
  faceLandmarkState | handState | gestureState | poseState | objectState | faceDetectorState

type_synonym adapter = nat
type_synonym handle = nat

record model_state =
  detect :: bool
  landmarker :: "adapter option"
  results :: jsval
  resultsName :: string

record device =
  deviceId :: string
  label :: string

record webcam_state =
  webcamId :: jsval
  webcamDevices :: "device list"
  webcamRunning :: bool
  lastVideoTime :: real
  drawingUtils :: handle

record websocket =
  readyState :: nat

text \<open>
  The two times are finite numbers (\<^verbatim>\<open>currentTime\<close> is never \<^verbatim>\<open>NaN\<close>), so \<^verbatim>\<open>!==\<close> between
  them is inequality of reals.
\<close>

record video_element =
  videoWidth :: nat
  videoHeight :: nat
  currentTime :: real

text \<open>The four size properties \<^verbatim>\<open>predictWebcam\<close> assigns on the canvas and on the objects layer.\<close>

record sized_element =
  style_width :: nat
  style_height :: nat
  width :: nat
  height :: nat

text \<open>
  Everything \<^verbatim>\<open>main.js\<close> reads or writes. \<^verbatim>\<open>socketState.ws\<close> is the connection
  \<^verbatim>\<open>setupWebSocket\<close> stored before \<^verbatim>\<open>enableCam\<close> was first called. The clocks are fields the
  environment sets: \<^verbatim>\<open>Date.now()\<close> gives \<open>Date_now\<close> where the running callback begins and
  \<open>Date_later\<close> where it ends, which is where \<^verbatim>\<open>predictWebcam\<close> reads it.
\<close>

record world =
  models :: "model_ref \<Rightarrow> model_state"
  webcamState :: webcam_state
  socketState_ws :: websocket
  overlayState_show :: bool
  video :: video_element
  canvasElement :: sized_element
  objectsDiv :: sized_element
  Date_now :: int
  Date_later :: int
  performance_now :: real

text \<open>
  Calls and assignments that leave the module, in the order they are made. They are taken
  to return normally and to leave the state objects alone; a detection call is the
  exception, it settles later, with a result or with a rejection.
\<close>

datatype event =
    console_log string "jsval list"
  | detectForVideo model_ref adapter real
  | recognizeForVideo model_ref adapter real
  | ws_send payload
  | draw model_ref jsval handle
  | draw_noargs model_ref
  | requestAnimationFrame
  | getUserMedia jsval
  | set_srcObject
  | addEventListener_loadeddata
  | set_backgroundColor string

definition allModelState :: "model_ref list" where
  "allModelState = [faceLandmarkState, handState, gestureState, poseState, objectState]"

definition landmarkerModelState :: "model_ref list" where
  "landmarkerModelState = [faceLandmarkState, handState, gestureState, poseState]"

section \<open>\<^verbatim>\<open>safeSocketSend\<close>\<close>

text \<open>\<^verbatim>\<open>WebSocket.OPEN\<close>.\<close>

definition OPEN :: nat where
  "OPEN = 1"

definition safeSocketSend :: "websocket \<Rightarrow> payload \<Rightarrow> event list" where
  "safeSocketSend ws data = (if readyState ws = OPEN then [ws_send data] else [])"

section \<open>\<^verbatim>\<open>checkDeviceIds\<close>\<close>

text \<open>
  The counting loop of \<^verbatim>\<open>checkDeviceIds\<close> from index \<open>i\<close> on. A device id is a string, so
  \<^verbatim>\<open>deviceIds[i].deviceId === key\<close> holds exactly when \<open>key\<close> is that string.
\<close>

function checkDeviceIds_from :: "nat \<Rightarrow> jsval \<Rightarrow> device list \<Rightarrow> bool" where
  "checkDeviceIds_from i key deviceIds =
     (if i < length deviceIds
      then (if JStr (deviceId (deviceIds ! i)) = key then True
            else checkDeviceIds_from (Suc i) key deviceIds)
      else False)"
  by pat_completeness auto
termination
  by (relation "measure (\<lambda>(i, key, deviceIds). length deviceIds - i)") auto

definition checkDeviceIds :: "jsval \<Rightarrow> device list \<Rightarrow> bool" where
  "checkDeviceIds key deviceIds = checkDeviceIds_from 0 key deviceIds"

section \<open>JavaScript operators that \<^verbatim>\<open>main.js\<close> applies to values\<close>

text \<open>Truthiness, as \<^verbatim>\<open>if (x)\<close> and \<^verbatim>\<open>&&\<close> test it.\<close>

fun truthy :: "jsval \<Rightarrow> bool" where
  "truthy JUndefined = False"
| "truthy JNull = False"
| "truthy (JBool b) = b"
| "truthy (JNum x) = (x \<noteq> 0)"
| "truthy (JStr s) = (s \<noteq> [])"
| "truthy (JArr xs) = True"
| "truthy (JObj ps) = True"

text \<open>
  Writing a property of an object under construction: a key already there keeps its place and
  takes the new value, a new key goes to the end.
\<close>

fun set_prop :: "string \<Rightarrow> jsval \<Rightarrow> (string \<times> jsval) list \<Rightarrow> (string \<times> jsval) list" where
  "set_prop k v [] = [(k, v)]"
| "set_prop k v ((k', v') # ps) = (if k = k' then (k, v) # ps else (k', v') # set_prop k v ps)"

text \<open>
  Reading \<^verbatim>\<open>data.type\<close> or \<^verbatim>\<open>data.deviceId\<close>: a name no prototype defines, so the value is an
  own property or \<^verbatim>\<open>undefined\<close>; on \<^verbatim>\<open>null\<close> and \<^verbatim>\<open>undefined\<close> the read throws.
\<close>

fun get_prop :: "jsval \<Rightarrow> string \<Rightarrow> js_error + jsval" where
  "get_prop JUndefined k = Inl TypeError"
| "get_prop JNull k = Inl TypeError"
| "get_prop (JObj ps) k = Inr (case map_of ps k of Some v \<Rightarrow> v | None \<Rightarrow> JUndefined)"
| "get_prop v k = Inr JUndefined"

text \<open>
  Whether converting a value to a primitive throws, as \<^verbatim>\<open>==\<close> against a string and string
  concatenation with \<^verbatim>\<open>+\<close> do: a parsed object whose own \<^verbatim>\<open>toString\<close> property hides the
  inherited method has no conversion left, and an array converts each of its elements.
\<close>

fun to_primitive_throws :: "jsval \<Rightarrow> bool" where
  "to_primitive_throws (JObj ps) = (''toString'' \<in> fst ` set ps)"
| "to_primitive_throws (JArr xs) = (\<exists>x \<in> set xs. to_primitive_throws x)"
| "to_primitive_throws v = False"

text \<open>
  \<^verbatim>\<open>v == "selectWebcam"\<close> for a value whose conversion does not throw. A string compares by
  content; an array compares by its elements joined with commas, which can only spell the word
  when there is one element that does; numbers, booleans, \<^verbatim>\<open>null\<close>, \<^verbatim>\<open>undefined\<close> and objects
  (\<^verbatim>\<open>"[object Object]"\<close>) never do.
\<close>

fun loose_eq_selectWebcam :: "jsval \<Rightarrow> bool" where
  "loose_eq_selectWebcam (JStr s) = (s = ''selectWebcam'')"
| "loose_eq_selectWebcam (JArr [x]) = loose_eq_selectWebcam x"
| "loose_eq_selectWebcam v = False"

text \<open>Decimal digits of an array or string index, as \<^verbatim>\<open>Object.entries\<close> names it.\<close>

function decimal :: "nat \<Rightarrow> string" where
  "decimal n = (if n < 10 then [''0123456789'' ! n]
                else decimal (n div 10) @ [''0123456789'' ! (n mod 10)])"
  by pat_completeness auto
termination
  by (relation "measure (\<lambda>n. n)") auto

fun index_entries :: "nat \<Rightarrow> jsval list \<Rightarrow> (string \<times> jsval) list" where
  "index_entries i [] = []"
| "index_entries i (x # xs) = (decimal i, x) # index_entries (Suc i) xs"

text \<open>
  \<^verbatim>\<open>Object.entries\<close>; on \<^verbatim>\<open>null\<close> and \<^verbatim>\<open>undefined\<close> it throws. A string has one entry for
  each of its characters.
\<close>

fun Object_entries :: "jsval \<Rightarrow> js_error + (string \<times> jsval) list" where
  "Object_entries JUndefined = Inl TypeError"
| "Object_entries JNull = Inl TypeError"
| "Object_entries (JObj ps) = Inr ps"
| "Object_entries (JArr xs) = Inr (index_entries 0 xs)"
| "Object_entries (JStr s) = Inr (index_entries 0 (map (\<lambda>c. JStr [c]) s))"
| "Object_entries v = Inr []"

section \<open>The Config map\<close>

text \<open>
  \<^verbatim>\<open>configMap\<close> is imported from \<^verbatim>\<open>modelParams.js\<close>; here it is a parameter, given by its own
  properties: option name to setter. Like every object written as a literal it inherits
  from \<^verbatim>\<open>Object.prototype\<close>, whose property names follow.
\<close>

type_synonym config_map = "string \<Rightarrow> (jsval \<Rightarrow> world \<Rightarrow> world) option"

definition Object_prototype_keys :: "string list" where
  "Object_prototype_keys =
     [''constructor'', ''__defineGetter__'', ''__defineSetter__'', ''hasOwnProperty'',
      ''__lookupGetter__'', ''__lookupSetter__'', ''isPrototypeOf'', ''propertyIsEnumerable'',
      ''toString'', ''valueOf'', ''__proto__'', ''toLocaleString'']"

text \<open>\<^verbatim>\<open>key in configMap\<close>: own properties and inherited ones.\<close>

definition js_in :: "string \<Rightarrow> config_map \<Rightarrow> bool" where
  "js_in key configMap \<longleftrightarrow> configMap key \<noteq> None \<or> key \<in> set Object_prototype_keys"

text \<open>
  \<^verbatim>\<open>configMap[key](value)\<close> for a key that is \<^verbatim>\<open>in\<close> the map. An own property is a setter and is
  run. Of the inherited properties, \<^verbatim>\<open>__proto__\<close> is not a function, \<^verbatim>\<open>__defineGetter__\<close> and
  \<^verbatim>\<open>__defineSetter__\<close> reject a call with one argument, the four that take a property name
  convert the argument first, and the others return without touching any state.
\<close>

definition call_config :: "config_map \<Rightarrow> string \<Rightarrow> jsval \<Rightarrow> world \<Rightarrow> js_error + world" where
  "call_config configMap key v w =
     (case configMap key of
        Some setter \<Rightarrow> Inr (setter v w)
      | None \<Rightarrow>
          if key \<in> {''__proto__'', ''__defineGetter__'', ''__defineSetter__''} then Inl TypeError
          else if key \<in> {''hasOwnProperty'', ''__lookupGetter__'', ''__lookupSetter__'',
                          ''propertyIsEnumerable''} \<and> to_primitive_throws v
          then Inl TypeError
          else Inr w)"

section \<open>\<^verbatim>\<open>handleQueryParams\<close>\<close>

text \<open>
  The \<^verbatim>\<open>forEach\<close> over the query parameters, in the order of the URL. The result is the state
  reached and the exception that ended the walk, if one did.
\<close>

fun handleQueryParams ::
  "config_map \<Rightarrow> (string \<times> string) list \<Rightarrow> world \<Rightarrow> world \<times> js_error option" where
  "handleQueryParams configMap [] w = (w, None)"
| "handleQueryParams configMap ((key, v) # rest) w =
     (if js_in key configMap
      then (case call_config configMap key (JStr v) w of
              Inl e \<Rightarrow> (w, Some e)
            | Inr w' \<Rightarrow> handleQueryParams configMap rest w')
      else handleQueryParams configMap rest w)"

section \<open>\<^verbatim>\<open>enableCam\<close>\<close>

text \<open>
  The call of \<^verbatim>\<open>enableCam\<close> itself builds the constraints from \<^verbatim>\<open>webcamState.webcamId\<close> (height
  and frame rate are constants) and requests the stream; the rest runs when the request
  settles.
\<close>

definition enableCam :: "world \<Rightarrow> event list" where
  "enableCam w = [getUserMedia (webcamId (webcamState w))]"

text \<open>
  The \<^verbatim>\<open>then\<close> callback of the request, for a stream with the given track settings. The
  listener it adds calls \<^verbatim>\<open>predictWebcam\<close> when the first frame is there.
\<close>

definition enableCam_then :: "jsval list \<Rightarrow> world \<Rightarrow> world \<times> event list" where
  "enableCam_then tracks w =
     (w\<lparr>webcamState := (webcamState w)\<lparr>webcamRunning := True\<rparr>\<rparr>,
      [set_srcObject, addEventListener_loadeddata]
      @ map (\<lambda>settings. console_log ''Webcam settings: '' [settings]) tracks)"

text \<open>The \<^verbatim>\<open>catch\<close> callback, for an error with the given name and message.\<close>

definition enableCam_catch :: "string \<Rightarrow> string \<Rightarrow> event list" where
  "enableCam_catch name message =
     [set_backgroundColor ''red'', console_log (name @ '': '' @ message) []]"

section \<open>\<^verbatim>\<open>predictWebcam\<close>\<close>

text \<open>
  \<^verbatim>\<open>predictWebcam\<close> is an \<^verbatim>\<open>async\<close> function: it runs until it awaits a detection call, gives
  control back, and goes on when the call settles. A suspended invocation is its local
  variables: the state object whose detection is awaited, the state objects the loop has
  still to visit, the \<^verbatim>\<open>objectState\<close> argument, \<^verbatim>\<open>startTimeMs\<close> and \<^verbatim>\<open>startDetect\<close>.
\<close>

datatype task =
    Awaiting model_ref "model_ref list" model_ref real int
  | Returned
  | Rejected

datatype outcome = resolved jsval | rejected

definition resize :: "video_element \<Rightarrow> sized_element" where
  "resize v = \<lparr>style_width = videoWidth v, style_height = videoHeight v,
               width = videoWidth v, height = videoHeight v\<rparr>"

text \<open>
  The object \<^verbatim>\<open>{ [resultsName]: results, 'resolution': { 'width': w, 'height': h } }\<close>.
\<close>

definition result_message :: "string \<Rightarrow> jsval \<Rightarrow> nat \<Rightarrow> nat \<Rightarrow> jsval" where
  "result_message name res w h =
     JObj (set_prop ''resolution'' (JObj [(''width'', JNum (real w)), (''height'', JNum (real h))])
            (set_prop name res []))"

text \<open>The detection entry point called on the adapter of state object \<open>l\<close>.\<close>

definition detection_call :: "model_ref \<Rightarrow> world \<Rightarrow> real \<Rightarrow> event" where
  "detection_call l w startTimeMs =
     (if resultsName (models w l) = ''gestureResults''
      then recognizeForVideo l (the (landmarker (models w l))) startTimeMs
      else detectForVideo l (the (landmarker (models w l))) startTimeMs)"

text \<open>The loop over \<^verbatim>\<open>landmarkerModelState\<close> that draws.\<close>

fun draw_landmarkers :: "model_ref list \<Rightarrow> world \<Rightarrow> event list" where
  "draw_landmarkers [] w = []"
| "draw_landmarkers (l # rest) w =
     (if detect (models w l) \<and> truthy (results (models w l))
      then [draw l (results (models w l)) (drawingUtils (webcamState w))]
      else [])
     @ draw_landmarkers rest w"

definition draw_overlays :: "model_ref \<Rightarrow> world \<Rightarrow> event list" where
  "draw_overlays obj w =
     (if overlayState_show w
      then draw_landmarkers landmarkerModelState w
           @ (if detect (models w obj) \<and> truthy (results (models w obj))
              then [draw_noargs obj] else [])
      else [])"

text \<open>The object \<^verbatim>\<open>{ detectTime: timeToDetect }\<close>.\<close>

definition timing_message :: "int \<Rightarrow> jsval" where
  "timing_message timeToDetect = JObj [(''detectTime'', JNum (of_int timeToDetect))]"

text \<open>Everything after the detection block: overlays, rescheduling, the timing message.\<close>

definition after_detection :: "model_ref \<Rightarrow> int \<Rightarrow> world \<Rightarrow> event list" where
  "after_detection obj startDetect w =
     draw_overlays obj w
     @ (if webcamRunning (webcamState w) then [requestAnimationFrame] else [])
     @ safeSocketSend (socketState_ws w)
         (JSON_stringify (timing_message (Date_later w - startDetect)))"

text \<open>
  The \<^verbatim>\<open>for ... of\<close> over the state objects still to visit: it goes on synchronously until a
  detection call is made and awaited, or until the list ends and the rest of the function
  runs.
\<close>

fun detect_loop :: "model_ref list \<Rightarrow> model_ref \<Rightarrow> real \<Rightarrow> int \<Rightarrow> world \<Rightarrow> event list \<times> task" where
  "detect_loop [] obj startTimeMs startDetect w = (after_detection obj startDetect w, Returned)"
| "detect_loop (l # rest) obj startTimeMs startDetect w =
     (if detect (models w l) \<and> landmarker (models w l) \<noteq> None
      then ([detection_call l w startTimeMs], Awaiting l rest obj startTimeMs startDetect)
      else detect_loop rest obj startTimeMs startDetect w)"

text \<open>
  From the call of \<^verbatim>\<open>predictWebcam\<close> to its first \<^verbatim>\<open>await\<close> or its return. Every caller passes
  the module's own \<^verbatim>\<open>webcamState\<close> and \<^verbatim>\<open>video\<close>, so these two arguments are read from the
  state; \<^verbatim>\<open>allModelState\<close> and \<^verbatim>\<open>objectState\<close> stay arguments.
\<close>

definition predictWebcam_start ::
  "model_ref list \<Rightarrow> model_ref \<Rightarrow> world \<Rightarrow> world \<times> event list \<times> task" where
  "predictWebcam_start allModels obj w =
     (let startDetect = Date_now w in
      if videoWidth (video w) = 0 \<or> videoHeight (video w) = 0
      then (w, [console_log ''videoWidth or videoHeight is 0'' []], Returned)
      else
        let w1 = w\<lparr>canvasElement := resize (video w), objectsDiv := resize (video w)\<rparr>;
            startTimeMs = performance_now w1
        in if lastVideoTime (webcamState w1) \<noteq> currentTime (video w1)
           then
             let w2 = w1\<lparr>webcamState :=
                          (webcamState w1)\<lparr>lastVideoTime := currentTime (video w1)\<rparr>\<rparr>
             in (w2, detect_loop allModels obj startTimeMs startDetect w2)
           else (w1, after_detection obj startDetect w1, Returned))"

text \<open>
  From the settling of the awaited detection call to the next \<^verbatim>\<open>await\<close> or the return. A
  rejected call ends the invocation with the exception.
\<close>

fun predictWebcam_resume :: "task \<Rightarrow> outcome \<Rightarrow> world \<Rightarrow> world \<times> event list \<times> task" where
  "predictWebcam_resume (Awaiting l rest obj startTimeMs startDetect) (resolved r) w =
     (let w1 = w\<lparr>models := (models w)(l := (models w l)\<lparr>results := r\<rparr>)\<rparr>;
          sent = safeSocketSend (socketState_ws w1)
                   (JSON_stringify
                      (result_message (resultsName (models w1 l)) (results (models w1 l))
                         (videoWidth (video w1)) (videoHeight (video w1))));
          (evs, t) = detect_loop rest obj startTimeMs startDetect w1
      in (w1, sent @ evs, t))"
| "predictWebcam_resume (Awaiting l rest obj startTimeMs startDetect) rejected w =
     (w, [], Rejected)"
| "predictWebcam_resume Returned out w = (w, [], Returned)"
| "predictWebcam_resume Rejected out w = (w, [], Rejected)"

text \<open>
  One invocation followed to its end. Each element of the input is what happens at one
  \<^verbatim>\<open>await\<close>: what the rest of the page does to the state while the call is in flight, and how
  the call settles. An input that ends early leaves the invocation suspended.
\<close>

fun run :: "((world \<Rightarrow> world) \<times> outcome) list \<Rightarrow> world \<Rightarrow> task \<Rightarrow> world \<times> event list \<times> task" where
  "run [] w t = (w, [], t)"
| "run ((env, out) # ins) w (Awaiting l rest obj startTimeMs startDetect) =
     (let (w1, evs1, t1) =
            predictWebcam_resume (Awaiting l rest obj startTimeMs startDetect) out (env w);
          (w2, evs2, t2) = run ins w1 t1
      in (w2, evs1 @ evs2, t2))"
| "run (x # ins) w Returned = (w, [], Returned)"
| "run (x # ins) w Rejected = (w, [], Rejected)"

definition predictWebcam ::
  "model_ref list \<Rightarrow> model_ref \<Rightarrow> ((world \<Rightarrow> world) \<times> outcome) list \<Rightarrow> world
   \<Rightarrow> world \<times> event list \<times> task" where
  "predictWebcam allModels obj ins w =
     (let (w1, evs1, t1) = predictWebcam_start allModels obj w;
          (w2, evs2, t2) = run ins w1 t1
      in (w2, evs1 @ evs2, t2))"

section \<open>Invocations in flight together\<close>

text \<open>
  The page runs one callback at a time, and a callback runs until it returns or awaits. What
  can happen next is: a frame callback calls \<^verbatim>\<open>predictWebcam\<close>; the detection call that a
  suspended invocation awaits settles; or some other code of the page changes the state.
\<close>

datatype action = Frame | Settle nat outcome | Outside "world \<Rightarrow> world"

fun is_awaiting :: "task \<Rightarrow> bool" where
  "is_awaiting (Awaiting l rest obj startTimeMs startDetect) = True"
| "is_awaiting t = False"

fun step ::
  "model_ref list \<Rightarrow> model_ref \<Rightarrow> action \<Rightarrow> world \<times> task list
   \<Rightarrow> (world \<times> task list) \<times> event list" where
  "step allModels obj Frame (w, pool) =
     (let (w1, evs, t) = predictWebcam_start allModels obj w
      in ((w1, if is_awaiting t then pool @ [t] else pool), evs))"
| "step allModels obj (Settle i out) (w, pool) =
     (if i < length pool
      then (let (w1, evs, t) = predictWebcam_resume (pool ! i) out w
            in ((w1, if is_awaiting t then pool[i := t] else take i pool @ drop (Suc i) pool),
                evs))
      else ((w, pool), []))"
| "step allModels obj (Outside f) (w, pool) = ((f w, pool), [])"

fun exec ::
  "model_ref list \<Rightarrow> model_ref \<Rightarrow> action list \<Rightarrow> world \<times> task list \<Rightarrow> world \<times> task list" where
  "exec allModels obj [] s = s"
| "exec allModels obj (a # as) s = exec allModels obj as (fst (step allModels obj a s))"

section \<open>The handler of inbound messages\<close>

text \<open>
  What a message event carries: a text that is not a JSON document (a binary frame behaves
  the same), or a document, given by the value \<^verbatim>\<open>JSON.parse\<close> returns for it.
\<close>

datatype event_data = Literal string | Document jsval

fun JSON_parse :: "event_data \<Rightarrow> js_error + jsval" where
  "JSON_parse (Literal s) = Inl SyntaxError"
| "JSON_parse (Document v) = Inr v"

text \<open>
  The loop over \<^verbatim>\<open>Object.entries(data)\<close>. The log line concatenates the value to a string before
  the setter is called.
\<close>

fun apply_entries ::
  "config_map \<Rightarrow> (string \<times> jsval) list \<Rightarrow> world \<Rightarrow> world \<times> event list \<times> js_error option" where
  "apply_entries configMap [] w = (w, [], None)"
| "apply_entries configMap ((key, v) # rest) w =
     (if js_in key configMap
      then (if to_primitive_throws v then (w, [], Some TypeError)
            else (case call_config configMap key v w of
                    Inl e \<Rightarrow> (w, [console_log ''Got WS dats: '' [JStr key, JStr '' : '', v]], Some e)
                  | Inr w' \<Rightarrow>
                      (let (w'', evs, r) = apply_entries configMap rest w'
                       in (w'', console_log ''Got WS dats: '' [JStr key, JStr '' : '', v] # evs, r))))
      else apply_entries configMap rest w)"

definition on_message ::
  "config_map \<Rightarrow> event_data \<Rightarrow> world \<Rightarrow> world \<times> event list \<times> js_error option" where
  "on_message configMap event_data w =
     (if event_data = Literal ''ping'' \<or> event_data = Literal ''pong'' then (w, [], None)
      else
        case JSON_parse event_data of
          Inl e \<Rightarrow> (w, [], Some e)
        | Inr d \<Rightarrow>
            (case get_prop d ''type'' of
               Inl e \<Rightarrow> (w, [console_log ''Data received: '' [d]], Some e)
             | Inr ty \<Rightarrow>
                 if to_primitive_throws ty
                 then (w, [console_log ''Data received: '' [d]], Some TypeError)
                 else if loose_eq_selectWebcam ty
                 then
                   (case get_prop d ''deviceId'' of
                      Inl e \<Rightarrow> (w, [console_log ''Data received: '' [d]], Some e)
                    | Inr dev \<Rightarrow>
                        if to_primitive_throws dev
                        then (w, [console_log ''Data received: '' [d]], Some TypeError)
                        else
                          let w1 = (if checkDeviceIds dev (webcamDevices (webcamState w))
                                    then w\<lparr>webcamState := (webcamState w)\<lparr>webcamId := dev\<rparr>\<rparr>
                                    else w)
                          in (w1,
                              [console_log ''Data received: '' [d],
                               console_log ''Got webcamId via WS: '' [dev]] @ enableCam w1,
                              None))
                 else
                   (case Object_entries d of
                      Inl e \<Rightarrow> (w, [console_log ''Data received: '' [d]], Some e)
                    | Inr entries \<Rightarrow>
                        (let (w1, evs, r) = apply_entries configMap entries w
                         in (w1, console_log ''Data received: '' [d] # evs, r)))))"

section \<open>Vocabulary of the properties\<close>

fun is_detection :: "event \<Rightarrow> bool" where
  "is_detection (detectForVideo l a t) = True"
| "is_detection (recognizeForVideo l a t) = True"
| "is_detection e = False"

fun is_draw :: "event \<Rightarrow> bool" where
  "is_draw (draw l r h) = True"
| "is_draw (draw_noargs l) = True"
| "is_draw e = False"

text \<open>What went over the wire, in order.\<close>

fun sent :: "event list \<Rightarrow> payload list" where
  "sent [] = []"
| "sent (ws_send p # es) = p # sent es"
| "sent (e # es) = sent es"

text \<open>A model is enabled when its \<^verbatim>\<open>detect\<close> flag is set and its adapter is loaded.\<close>

definition enabled :: "world \<Rightarrow> model_ref \<Rightarrow> bool" where
  "enabled w l \<longleftrightarrow> detect (models w l) \<and> landmarker (models w l) \<noteq> None"

text \<open>
  Two states agree on what the detection block reads besides the results: which models are
  enabled, their adapters and result names, the connection, the size of the video.
\<close>

definition same_controls :: "world \<Rightarrow> world \<Rightarrow> bool" where
  "same_controls w w' \<longleftrightarrow>
     (\<forall>l. detect (models w' l) = detect (models w l)
          \<and> landmarker (models w' l) = landmarker (models w l)
          \<and> resultsName (models w' l) = resultsName (models w l))
     \<and> socketState_ws w' = socketState_ws w
     \<and> videoWidth (video w') = videoWidth (video w)
     \<and> videoHeight (video w') = videoHeight (video w)"

definition steady :: "(world \<Rightarrow> world) \<Rightarrow> bool" where
  "steady env \<longleftrightarrow> (\<forall>w. same_controls w (env w))"

fun is_resolved :: "outcome \<Rightarrow> bool" where
  "is_resolved (resolved r) = True"
| "is_resolved rejected = False"

fun value_of :: "outcome \<Rightarrow> jsval" where
  "value_of (resolved r) = r"
| "value_of rejected = JUndefined"

text \<open>
  What happens at the awaits of one invocation: every detection call resolves, and the rest
  of the page leaves alone what the detection block reads.
\<close>

definition undisturbed :: "((world \<Rightarrow> world) \<times> outcome) list \<Rightarrow> bool" where
  "undisturbed ins \<longleftrightarrow> (\<forall>x \<in> set ins. steady (fst x) \<and> is_resolved (snd x))"

text \<open>
  The calls of a detection block that runs to its end on the models \<open>l\<close> with results \<open>r\<close>:
  for each, the detection call and then the guarded send of its result message.
\<close>

fun dispatched :: "world \<Rightarrow> real \<Rightarrow> (model_ref \<times> jsval) list \<Rightarrow> event list" where
  "dispatched w t [] = []"
| "dispatched w t ((l, r) # lrs) =
     detection_call l w t
     # safeSocketSend (socketState_ws w)
         (JSON_stringify
            (result_message (resultsName (models w l)) r
               (videoWidth (video w)) (videoHeight (video w))))
     @ dispatched w t lrs"

text \<open>The video has not moved on since the frame that was last let into the detection block.\<close>

definition time_seen :: "world \<Rightarrow> bool" where
  "time_seen w \<longleftrightarrow> lastVideoTime (webcamState w) = currentTime (video w)"

text \<open>Code outside \<^verbatim>\<open>predictWebcam\<close> that leaves the video time and \<^verbatim>\<open>lastVideoTime\<close> alone.\<close>

definition keeps_time :: "(world \<Rightarrow> world) \<Rightarrow> bool" where
  "keeps_time f \<longleftrightarrow>
     (\<forall>w. currentTime (video (f w)) = currentTime (video w)
          \<and> lastVideoTime (webcamState (f w)) = lastVideoTime (webcamState w))"

fun calm :: "action \<Rightarrow> bool" where
  "calm (Outside f) = keeps_time f"
| "calm a = True"




text \<open>A state for concrete checks: hand and gesture models enabled, one known camera.\<close>

definition idle_model :: "string \<Rightarrow> model_state" where
  "idle_model name = \<lparr>detect = False, landmarker = None, results = JNull, resultsName = name\<rparr>"

definition sample_world :: world where
  "sample_world =
     \<lparr>models = (\<lambda>l. idle_model ''faceResults'')
        (handState := \<lparr>detect = True, landmarker = Some 1, results = JNull,
                        resultsName = ''handResults''\<rparr>,
         gestureState := \<lparr>detect = True, landmarker = Some 2, results = JNull,
                           resultsName = ''gestureResults''\<rparr>),
      webcamState = \<lparr>webcamId = JUndefined,
                      webcamDevices = [\<lparr>deviceId = ''abc'', label = ''front''\<rparr>],
                      webcamRunning = True, lastVideoTime = - 1, drawingUtils = 0\<rparr>,
      socketState_ws = \<lparr>readyState = 1\<rparr>,
      overlayState_show = True,
      video = \<lparr>videoWidth = 1280, videoHeight = 720, currentTime = 1 / 2\<rparr>,
      canvasElement = \<lparr>style_width = 0, style_height = 0, width = 0, height = 0\<rparr>,
      objectsDiv = \<lparr>style_width = 0, style_height = 0, width = 0, height = 0\<rparr>,
      Date_now = 1000,
      Date_later = 1003,
      performance_now = 12\<rparr>"

text \<open>
  What may run while an invocation that saw video time \<open>t\<close> is in flight: frame callbacks
  that see the same time, settlements, and other code that does not write \<^verbatim>\<open>lastVideoTime\<close>.
\<close>

fun allowed :: "real \<Rightarrow> action \<Rightarrow> world \<Rightarrow> bool" where
  "allowed t Frame w = (currentTime (video w) = t)"
| "allowed t (Settle i out) w = True"
| "allowed t (Outside f) w = (lastVideoTime (webcamState (f w)) = lastVideoTime (webcamState w))"

fun same_time_seen ::
  "real \<Rightarrow> model_ref list \<Rightarrow> model_ref \<Rightarrow> action list \<Rightarrow> world \<times> task list \<Rightarrow> bool" where
  "same_time_seen t allModels obj [] s = True"
| "same_time_seen t allModels obj (a # as) s =
     (allowed t a (fst s) \<and> same_time_seen t allModels obj as (fst (step allModels obj a s)))"

text \<open>Two states that differ at most in \<^verbatim>\<open>webcamRunning\<close> and in what the loop never reads.\<close>

definition flag_apart :: "world \<Rightarrow> world \<Rightarrow> bool" where
  "flag_apart w w' \<longleftrightarrow>
     models w' = models w
     \<and> drawingUtils (webcamState w') = drawingUtils (webcamState w)
     \<and> lastVideoTime (webcamState w') = lastVideoTime (webcamState w)
     \<and> socketState_ws w' = socketState_ws w
     \<and> overlayState_show w' = overlayState_show w
     \<and> video w' = video w
     \<and> Date_now w' = Date_now w
     \<and> Date_later w' = Date_later w
     \<and> performance_now w' = performance_now w"


text \<open>
  A stretch of \<^verbatim>\<open>predictWebcam\<close> between two suspensions makes at most one detection call,
  and when it makes one, that call is the last thing it does and the invocation awaits it.
\<close>

definition one_call_then_wait :: "world \<times> event list \<times> task \<Rightarrow> bool" where
  "one_call_then_wait seg \<longleftrightarrow>
     length (filter is_detection (fst (snd seg))) \<le> 1
     \<and> (filter is_detection (fst (snd seg)) \<noteq> []
          \<longrightarrow> is_awaiting (snd (snd seg)) \<and> is_detection (last (fst (snd seg))))"

text \<open>The state right after the detection block is entered.\<close>

definition entered :: "world \<Rightarrow> world" where
  "entered w = w\<lparr>canvasElement := resize (video w), objectsDiv := resize (video w),
                  webcamState := (webcamState w)\<lparr>lastVideoTime := currentTime (video w)\<rparr>\<rparr>"

text \<open>Further data for concrete checks.\<close>

definition sample_inputs :: "((world \<Rightarrow> world) \<times> outcome) list" where
  "sample_inputs = [(\<lambda>w. w, resolved (JStr ''hand'')), (\<lambda>w. w, resolved (JStr ''gesture''))]"

definition dark_world :: world where
  "dark_world = sample_world\<lparr>video := \<lparr>videoWidth = 0, videoHeight = 0, currentTime = 1 / 2\<rparr>\<rparr>"



definition select_abc :: jsval where
  "select_abc = JObj [(''type'', JStr ''selectWebcam''), (''deviceId'', JStr ''abc'')]"

section \<open>Properties\<close>

lemma checkDeviceIds_from_iff:
  "checkDeviceIds_from i key ds \<longleftrightarrow> (\<exists>j. i \<le> j \<and> j < length ds \<and> JStr (deviceId (ds ! j)) = key)"
proof (induction i key ds rule: checkDeviceIds_from.induct)
  case (1 i key ds)
  show ?case
  proof (cases "i < length ds")
    case False
    then show ?thesis by (subst checkDeviceIds_from.simps) auto
  next
    case inside: True
    show ?thesis
    proof (cases "JStr (deviceId (ds ! i)) = key")
      case True
      with inside show ?thesis by (subst checkDeviceIds_from.simps) auto
    next
      case False
      have "(\<exists>j. Suc i \<le> j \<and> j < length ds \<and> JStr (deviceId (ds ! j)) = key)
            \<longleftrightarrow> (\<exists>j. i \<le> j \<and> j < length ds \<and> JStr (deviceId (ds ! j)) = key)"
        using False by (metis Suc_leD Suc_leI le_neq_implies_less)
      with "1.IH" [OF inside False] inside False show ?thesis
        by (subst checkDeviceIds_from.simps) simp
    qed
  qed
qed

lemma checkDeviceIds_iff_set:
  "checkDeviceIds key ds \<longleftrightarrow> (\<exists>d \<in> set ds. JStr (deviceId d) = key)"
proof -
  have "checkDeviceIds key ds \<longleftrightarrow> (\<exists>j. 0 \<le> j \<and> j < length ds \<and> JStr (deviceId (ds ! j)) = key)"
    unfolding checkDeviceIds_def by (rule checkDeviceIds_from_iff)
  also have "\<dots> \<longleftrightarrow> (\<exists>j. j < length ds \<and> JStr (deviceId (ds ! j)) = key)"
    by simp
  also have "\<dots> \<longleftrightarrow> (\<exists>d \<in> set ds. JStr (deviceId d) = key)"
  proof
    assume "\<exists>j. j < length ds \<and> JStr (deviceId (ds ! j)) = key"
    then obtain j where "j < length ds" and "JStr (deviceId (ds ! j)) = key" by blast
    then show "\<exists>d \<in> set ds. JStr (deviceId d) = key"
      using nth_mem by blast
  next
    assume "\<exists>d \<in> set ds. JStr (deviceId d) = key"
    then obtain d where "d \<in> set ds" and hit: "JStr (deviceId d) = key" by blast
    then obtain j where "j < length ds" and "ds ! j = d"
      by (auto simp: in_set_conv_nth)
    with hit show "\<exists>j. j < length ds \<and> JStr (deviceId (ds ! j)) = key" by blast
  qed
  finally show ?thesis .
qed
text \<open>
  C4: on a connection whose \<^verbatim>\<open>readyState\<close> is not \<^verbatim>\<open>OPEN\<close>, \<^verbatim>\<open>safeSocketSend\<close> makes no call at
  all, whatever the payload: the underlying \<^verbatim>\<open>send\<close> is not invoked, and since the function
  returns nothing but the calls it made, nothing is queued, retried or raised.
\<close>

theorem safeSocketSend_not_open:
  "readyState ws \<noteq> OPEN \<Longrightarrow> safeSocketSend ws data = []"
  by (simp add: safeSocketSend_def)

theorem safeSocketSend_not_open_witness:
  "readyState \<lparr>readyState = 3\<rparr> \<noteq> OPEN
   \<and> safeSocketSend \<lparr>readyState = 3\<rparr> (Text ''pong'') = []"
proof -
  have closed: "readyState \<lparr>readyState = 3\<rparr> \<noteq> OPEN" by (simp add: OPEN_def)
  from closed safeSocketSend_not_open [OF closed, of "Text ''pong''"] show ?thesis by simp
qed

text \<open>
  C6: \<^verbatim>\<open>checkDeviceIds(key, deviceIds)\<close> is true exactly when some element of the list has
  \<^verbatim>\<open>deviceId\<close> equal to \<open>key\<close>; on the list of the devices \<^verbatim>\<open>abc\<close> and \<^verbatim>\<open>xyz\<close> it is true for
  \<^verbatim>\<open>"abc"\<close> and false for \<^verbatim>\<open>"zzz"\<close>; on the empty list it is false for every key.
\<close>

theorem checkDeviceIds_spec:
  "(checkDeviceIds key ds \<longleftrightarrow> (\<exists>d \<in> set ds. JStr (deviceId d) = key))
   \<and> checkDeviceIds (JStr ''abc'')
       [\<lparr>deviceId = ''abc'', label = la\<rparr>, \<lparr>deviceId = ''xyz'', label = lb\<rparr>]
   \<and> \<not> checkDeviceIds (JStr ''zzz'')
       [\<lparr>deviceId = ''abc'', label = la\<rparr>, \<lparr>deviceId = ''xyz'', label = lb\<rparr>]
   \<and> \<not> checkDeviceIds key []"
proof (intro conjI)
  show "checkDeviceIds key ds \<longleftrightarrow> (\<exists>d \<in> set ds. JStr (deviceId d) = key)"
    by (rule checkDeviceIds_iff_set)
qed (simp_all add: checkDeviceIds_iff_set)

theorem checkDeviceIds_spec_witness:
  "checkDeviceIds (JStr ''xyz'')
     [\<lparr>deviceId = ''abc'', label = ''front''\<rparr>, \<lparr>deviceId = ''xyz'', label = ''back''\<rparr>]
   \<and> (\<exists>d \<in> set [\<lparr>deviceId = ''abc'', label = ''front''\<rparr>, \<lparr>deviceId = ''xyz'', label = ''back''\<rparr>].
         JStr (deviceId d) = JStr ''xyz'')"
  using checkDeviceIds_spec [of "JStr ''xyz''"
      "[\<lparr>deviceId = ''abc'', label = ''front''\<rparr>, \<lparr>deviceId = ''xyz'', label = ''back''\<rparr>]"]
  by simp

lemma same_controls_refl: "same_controls w w"
  by (simp add: same_controls_def)

lemma same_controls_trans: "same_controls a b \<Longrightarrow> same_controls b c \<Longrightarrow> same_controls a c"
  by (simp add: same_controls_def)

lemma same_controls_results:
  "same_controls w (w\<lparr>models := (models w)(l := (models w l)\<lparr>results := r\<rparr>)\<rparr>)"
  by (simp add: same_controls_def)

lemma enabled_cong: "same_controls w w' \<Longrightarrow> enabled w' l = enabled w l"
  by (simp add: same_controls_def enabled_def)

lemma filter_enabled_cong: "same_controls w w' \<Longrightarrow> filter (enabled w') ls = filter (enabled w) ls"
  by (simp add: enabled_cong cong: filter_cong)

lemma detection_call_cong: "same_controls w w' \<Longrightarrow> detection_call l w' t = detection_call l w t"
  by (simp add: same_controls_def detection_call_def)

lemma dispatched_cong: "same_controls w w' \<Longrightarrow> dispatched w' t lrs = dispatched w t lrs"
proof (induction lrs)
  case Nil
  show ?case by simp
next
  case (Cons x lrs)
  obtain l r where x: "x = (l, r)" by (cases x)
  from Cons.prems have "detection_call l w' t = detection_call l w t"
    by (rule detection_call_cong)
  moreover from Cons.prems have "socketState_ws w' = socketState_ws w"
    "resultsName (models w' l) = resultsName (models w l)"
    "videoWidth (video w') = videoWidth (video w)" "videoHeight (video w') = videoHeight (video w)"
    by (simp_all add: same_controls_def)
  ultimately show ?case using Cons.IH [OF Cons.prems] by (simp add: x)
qed

lemma run_Returned: "run ins w Returned = (w, [], Returned)"
  by (cases ins) simp_all

lemma run_detect_loop:
  assumes "\<forall>x \<in> set ins. steady (fst x) \<and> is_resolved (snd x)"
    and "length (filter (enabled w) ls) \<le> length ins"
  shows "snd (snd (run ins w (snd (detect_loop ls obj t sd w)))) = Returned
       \<and> fst (detect_loop ls obj t sd w) @ fst (snd (run ins w (snd (detect_loop ls obj t sd w))))
         = dispatched w t (zip (filter (enabled w) ls) (map (\<lambda>x. value_of (snd x)) ins))
           @ after_detection obj sd (fst (run ins w (snd (detect_loop ls obj t sd w))))
       \<and> same_controls w (fst (run ins w (snd (detect_loop ls obj t sd w))))"
  using assms
proof (induction ls arbitrary: w ins)
  case Nil
  show ?case by (simp add: run_Returned same_controls_refl)
next
  case (Cons l ls)
  show ?case
  proof (cases "enabled w l")
    case False
    then have skip: "detect_loop (l # ls) obj t sd w = detect_loop ls obj t sd w"
      by (auto simp: enabled_def)
    from False Cons.prems(2) have "length (filter (enabled w) ls) \<le> length ins" by simp
    from Cons.IH [OF Cons.prems(1) this] False show ?thesis
      unfolding skip by simp
  next
    case True
    then have call: "detect_loop (l # ls) obj t sd w = ([detection_call l w t], Awaiting l ls obj t sd)"
      by (simp add: enabled_def)
    from True Cons.prems(2) obtain x ins' where ins: "ins = x # ins'"
      by (cases ins) auto
    obtain env out where x: "x = (env, out)" by (cases x)
    from Cons.prems(1) ins x have st: "steady env" and "is_resolved out" by auto
    then obtain r where out: "out = resolved r" by (cases out) auto
    define w1 where "w1 = (env w)\<lparr>models := (models (env w))(l := (models (env w) l)\<lparr>results := r\<rparr>)\<rparr>"
    from st have "same_controls w (env w)" by (simp add: steady_def)
    then have sc: "same_controls w w1"
      unfolding w1_def by (rule same_controls_trans) (rule same_controls_results)
    from Cons.prems(1) ins have p1: "\<forall>x \<in> set ins'. steady (fst x) \<and> is_resolved (snd x)" by simp
    from True Cons.prems(2) ins have "length (filter (enabled w) ls) \<le> length ins'" by simp
    then have p2: "length (filter (enabled w1) ls) \<le> length ins'"
      by (simp add: filter_enabled_cong [OF sc])
    note IH = Cons.IH [OF p1 p2]
    have res: "predictWebcam_resume (Awaiting l ls obj t sd) out (env w)
       = (w1, safeSocketSend (socketState_ws w1)
                (JSON_stringify (result_message (resultsName (models w1 l)) r
                   (videoWidth (video w1)) (videoHeight (video w1))))
              @ fst (detect_loop ls obj t sd w1), snd (detect_loop ls obj t sd w1))"
      by (simp add: out w1_def Let_def split_beta)
    have runeq: "run ins w (Awaiting l ls obj t sd)
       = (fst (run ins' w1 (snd (detect_loop ls obj t sd w1))),
          (safeSocketSend (socketState_ws w1)
                (JSON_stringify (result_message (resultsName (models w1 l)) r
                   (videoWidth (video w1)) (videoHeight (video w1))))
              @ fst (detect_loop ls obj t sd w1)) @ fst (snd (run ins' w1 (snd (detect_loop ls obj t sd w1)))),
          snd (snd (run ins' w1 (snd (detect_loop ls obj t sd w1)))))"
      unfolding ins x by (simp only: run.simps res Let_def split_beta fst_conv snd_conv)
    from sc have eqs: "socketState_ws w1 = socketState_ws w"
      "resultsName (models w1 l) = resultsName (models w l)"
      "videoWidth (video w1) = videoWidth (video w)" "videoHeight (video w1) = videoHeight (video w)"
      by (simp_all add: same_controls_def)
    have zipeq: "zip (filter (enabled w) (l # ls)) (map (\<lambda>x. value_of (snd x)) ins)
        = (l, r) # zip (filter (enabled w) ls) (map (\<lambda>x. value_of (snd x)) ins')"
      using True by (simp add: ins x out)
    show ?thesis
      unfolding call snd_conv fst_conv runeq zipeq
      using IH same_controls_trans [OF sc]
      by (simp add: eqs dispatched_cong [OF sc] filter_enabled_cong [OF sc])
  qed
qed

lemma draw_landmarkers_only_draw: "e \<in> set (draw_landmarkers ls w) \<Longrightarrow> is_draw e"
  by (induction ls) (auto split: if_splits)

lemma draw_overlays_only_draw: "e \<in> set (draw_overlays obj w) \<Longrightarrow> is_draw e"
  by (auto simp: draw_overlays_def split: if_splits dest: draw_landmarkers_only_draw)

lemma after_detection_no_detection: "e \<in> set (after_detection obj sd w) \<Longrightarrow> \<not> is_detection e"
  by (auto simp: after_detection_def safeSocketSend_def split: if_splits
      dest!: draw_overlays_only_draw elim: is_draw.elims)

lemma is_detection_call [simp]: "is_detection (detection_call l w t)"
  by (simp add: detection_call_def)

lemma start_seen:
  assumes "time_seen w"
  shows "snd (snd (predictWebcam_start allModels obj w)) = Returned"
    and "\<forall>e \<in> set (fst (snd (predictWebcam_start allModels obj w))). \<not> is_detection e"
    and "time_seen (fst (predictWebcam_start allModels obj w))"
  using assms
  by (auto simp: predictWebcam_start_def time_seen_def Let_def
      dest: after_detection_no_detection)


lemma start_processed:
  assumes "videoWidth (video w) \<noteq> 0" and "videoHeight (video w) \<noteq> 0"
  shows "time_seen (fst (predictWebcam_start allModels obj w))"
    and "currentTime (video (fst (predictWebcam_start allModels obj w))) = currentTime (video w)"
  using assms by (auto simp: predictWebcam_start_def time_seen_def Let_def)

lemma resume_keeps_time:
  "lastVideoTime (webcamState (fst (predictWebcam_resume t out w))) = lastVideoTime (webcamState w)
   \<and> currentTime (video (fst (predictWebcam_resume t out w))) = currentTime (video w)"
proof (cases t)
  case (Awaiting l rest obj st sd)
  then show ?thesis by (cases out) (simp_all add: Let_def split_beta)
qed simp_all

lemma resume_seen: "time_seen w \<Longrightarrow> time_seen (fst (predictWebcam_resume t out w))"
  by (simp add: time_seen_def resume_keeps_time)

lemma step_seen:
  assumes "calm a" and "time_seen (fst s)"
  shows "time_seen (fst (fst (step allModels obj a s)))"
proof (cases s)
  case (Pair w pool)
  with assms show ?thesis
  proof (cases a)
    case Frame
    with Pair assms start_seen(3) [of w allModels obj] show ?thesis
      by (simp add: split_beta Let_def)
  next
    case (Settle i out)
    with Pair assms resume_seen [of w "pool ! i" out] show ?thesis
      by (simp add: split_beta Let_def)
  next
    case (Outside f)
    with Pair assms show ?thesis by (simp add: keeps_time_def time_seen_def)
  qed
qed

lemma exec_seen:
  "\<forall>a \<in> set acts. calm a \<Longrightarrow> time_seen (fst s) \<Longrightarrow> time_seen (fst (exec allModels obj acts s))"
  by (induction acts arbitrary: s) (simp_all add: step_seen)


lemma frame_step_world:
  "fst (fst (step allModels obj Frame s)) = fst (predictWebcam_start allModels obj (fst s))"
  by (cases s) (simp add: split_beta Let_def)








lemma same_controls_entered: "same_controls w (entered w)"
  by (simp add: same_controls_def entered_def)

lemma predictWebcam_processed:
  assumes "videoWidth (video w) \<noteq> 0" and "videoHeight (video w) \<noteq> 0" and "\<not> time_seen w"
  shows "predictWebcam allModels obj ins w
    = (fst (run ins (entered w) (snd (detect_loop allModels obj (performance_now w) (Date_now w) (entered w)))),
       fst (detect_loop allModels obj (performance_now w) (Date_now w) (entered w))
       @ fst (snd (run ins (entered w) (snd (detect_loop allModels obj (performance_now w) (Date_now w) (entered w))))),
       snd (snd (run ins (entered w) (snd (detect_loop allModels obj (performance_now w) (Date_now w) (entered w))))))"
  using assms
  by (simp add: predictWebcam_def predictWebcam_start_def time_seen_def entered_def Let_def split_beta)

lemma predictWebcam_skipped:
  assumes "videoWidth (video w) \<noteq> 0" and "videoHeight (video w) \<noteq> 0" and "time_seen w"
  shows "predictWebcam allModels obj ins w
    = (w\<lparr>canvasElement := resize (video w), objectsDiv := resize (video w)\<rparr>,
       after_detection obj (Date_now w) (w\<lparr>canvasElement := resize (video w), objectsDiv := resize (video w)\<rparr>),
       Returned)"
  using assms
  by (simp add: predictWebcam_def predictWebcam_start_def time_seen_def Let_def split_beta run_Returned)

lemma predictWebcam_zero:
  assumes "videoWidth (video w) = 0 \<or> videoHeight (video w) = 0"
  shows "predictWebcam allModels obj ins w
    = (w, [console_log ''videoWidth or videoHeight is 0'' []], Returned)"
  using assms
  by (auto simp: predictWebcam_def predictWebcam_start_def Let_def split_beta run_Returned)

lemma processed_run:
  assumes dims: "videoWidth (video w) \<noteq> 0" "videoHeight (video w) \<noteq> 0"
    and fresh: "\<not> time_seen w"
    and ins: "\<forall>x \<in> set ins. steady (fst x) \<and> is_resolved (snd x)"
    and enough: "length (filter (enabled w) allModels) \<le> length ins"
  shows "snd (predictWebcam allModels obj ins w)
          = (dispatched w (performance_now w)
               (zip (filter (enabled w) allModels) (map (\<lambda>x. value_of (snd x)) ins))
             @ after_detection obj (Date_now w) (fst (predictWebcam allModels obj ins w)),
             Returned)"
    and "same_controls w (fst (predictWebcam allModels obj ins w))"
proof -
  note sc = same_controls_entered [of w]
  from enough have enough': "length (filter (enabled (entered w)) allModels) \<le> length ins"
    by (simp add: filter_enabled_cong [OF sc])
  note R = run_detect_loop [OF ins enough', of obj "performance_now w" "Date_now w"]
  note P = predictWebcam_processed [OF dims fresh, of allModels obj ins]
  from R show "snd (predictWebcam allModels obj ins w)
          = (dispatched w (performance_now w)
               (zip (filter (enabled w) allModels) (map (\<lambda>x. value_of (snd x)) ins))
             @ after_detection obj (Date_now w) (fst (predictWebcam allModels obj ins w)),
             Returned)"
    unfolding P by (simp add: dispatched_cong [OF sc] filter_enabled_cong [OF sc])
  from R same_controls_trans [OF sc]
  show "same_controls w (fst (predictWebcam allModels obj ins w))"
    unfolding P by simp
qed


lemma steady_same: "steady (\<lambda>w. w)"
  by (simp add: steady_def same_controls_def)

lemma sample_enabled: "filter (enabled sample_world) allModelState = [handState, gestureState]"
  by (simp add: enabled_def sample_world_def allModelState_def idle_model_def)


text \<open>
  C9: an invocation that finds the video width or height zero returns at once: the only call
  it makes is the console log, so no detection, no drawing, no message and no
  \<^verbatim>\<open>requestAnimationFrame\<close>; the state is untouched and no invocation is left in flight, so
  nothing remains that would run the loop again.
\<close>

theorem zero_size_returns:
  "videoWidth (video w) = 0 \<or> videoHeight (video w) = 0 \<Longrightarrow>
   predictWebcam allModels obj ins w
     = (w, [console_log ''videoWidth or videoHeight is 0'' []], Returned)
   \<and> step allModels obj Frame (w, pool)
     = ((w, pool), [console_log ''videoWidth or videoHeight is 0'' []])"
  by (auto simp: predictWebcam_def predictWebcam_start_def Let_def split_beta run_Returned)

theorem zero_size_returns_witness:
  "(videoWidth (video dark_world) = 0 \<or> videoHeight (video dark_world) = 0)
   \<and> predictWebcam allModelState objectState sample_inputs dark_world
     = (dark_world, [console_log ''videoWidth or videoHeight is 0'' []], Returned)
   \<and> step allModelState objectState Frame (dark_world, [])
     = ((dark_world, []), [console_log ''videoWidth or videoHeight is 0'' []])"
proof -
  have h: "videoWidth (video dark_world) = 0 \<or> videoHeight (video dark_world) = 0"
    by (simp add: dark_world_def)
  from h zero_size_returns [OF h, of allModelState objectState sample_inputs "[]"]
  show ?thesis by blast
qed




lemma draw_landmarkers_map:
  "draw_landmarkers ls w
   = map (\<lambda>l. draw l (results (models w l)) (drawingUtils (webcamState w)))
       (filter (\<lambda>l. detect (models w l) \<and> truthy (results (models w l))) ls)"
  by (induction ls) simp_all




lemma start_keeps_video: "video (fst (predictWebcam_start allModels obj w)) = video w"
  by (simp add: predictWebcam_start_def Let_def)

lemma step_keeps_last:
  assumes "allowed t a (fst s)" and "lastVideoTime (webcamState (fst s)) = t"
  shows "lastVideoTime (webcamState (fst (fst (step allModels obj a s)))) = t"
proof (cases s)
  case (Pair w pool)
  show ?thesis
  proof (cases a)
    case Frame
    with assms Pair have "time_seen w" by (simp add: time_seen_def)
    from start_seen(3) [OF this, of allModels obj] assms Frame Pair show ?thesis
      by (simp add: time_seen_def start_keeps_video split_beta Let_def)
  next
    case (Settle i out)
    with assms Pair resume_keeps_time [of "pool ! i" out w] show ?thesis
      by (simp add: split_beta Let_def)
  next
    case (Outside f)
    with assms Pair show ?thesis by simp
  qed
qed

lemma exec_keeps_last:
  "same_time_seen t allModels obj acts s \<Longrightarrow> lastVideoTime (webcamState (fst s)) = t
   \<Longrightarrow> lastVideoTime (webcamState (fst (exec allModels obj acts s))) = t"
  by (induction acts arbitrary: s) (simp_all add: step_keeps_last)

text \<open>
  C10: when a frame passes the size guard, the state in which \<^verbatim>\<open>predictWebcam\<close> first gives
  up control already has \<^verbatim>\<open>lastVideoTime\<close> equal to \<^verbatim>\<open>video.currentTime\<close>. So whatever runs
  while its detection is in flight (further frame callbacks that see the same time,
  settlements, other code that does not write \<^verbatim>\<open>lastVideoTime\<close>), an invocation entered
  then that sees the same time makes no detection call and does not suspend.
\<close>

theorem lastVideoTime_set_before_await:
  assumes "videoWidth (video w) \<noteq> 0" and "videoHeight (video w) \<noteq> 0"
    and "same_time_seen (currentTime (video w)) allModels obj acts
           (fst (step allModels obj Frame (w, pool)))"
    and "currentTime (video (fst (exec allModels obj acts (fst (step allModels obj Frame (w, pool))))))
         = currentTime (video w)"
  shows "lastVideoTime (webcamState (fst (predictWebcam_start allModels obj w))) = currentTime (video w)
       \<and> snd (snd (predictWebcam_start allModels obj
               (fst (exec allModels obj acts (fst (step allModels obj Frame (w, pool))))))) = Returned
       \<and> filter is_detection (fst (snd (predictWebcam_start allModels obj
               (fst (exec allModels obj acts (fst (step allModels obj Frame (w, pool)))))))) = []"
proof -
  note first = start_processed [OF assms(1,2), of allModels obj]
  have fw: "fst (fst (step allModels obj Frame (w, pool))) = fst (predictWebcam_start allModels obj w)"
    using frame_step_world [of allModels obj "(w, pool)"] by (simp only: fst_conv)
  from first have set: "lastVideoTime (webcamState (fst (predictWebcam_start allModels obj w)))
      = currentTime (video w)"
    by (simp add: time_seen_def)
  then have "lastVideoTime (webcamState (fst (fst (step allModels obj Frame (w, pool)))))
      = currentTime (video w)"
    by (simp only: fw)
  from exec_keeps_last [OF assms(3) this] assms(4)
  have later: "time_seen (fst (exec allModels obj acts (fst (step allModels obj Frame (w, pool)))))"
    by (simp add: time_seen_def)
  from set start_seen(1,2) [OF later, of allModels obj] show ?thesis
    by (simp add: filter_empty_conv)
qed

theorem lastVideoTime_set_before_await_witness:
  "videoWidth (video sample_world) \<noteq> 0 \<and> videoHeight (video sample_world) \<noteq> 0
   \<and> same_time_seen (currentTime (video sample_world)) allModelState objectState
        [Outside (\<lambda>w. w\<lparr>Date_now := 1016\<rparr>), Frame, Settle 0 (resolved JNull)]
        (fst (step allModelState objectState Frame (sample_world, [])))
   \<and> currentTime (video (fst (exec allModelState objectState
        [Outside (\<lambda>w. w\<lparr>Date_now := 1016\<rparr>), Frame, Settle 0 (resolved JNull)]
        (fst (step allModelState objectState Frame (sample_world, []))))))
     = currentTime (video sample_world)
   \<and> lastVideoTime (webcamState (fst (predictWebcam_start allModelState objectState sample_world)))
     = 1 / 2
   \<and> snd (snd (predictWebcam_start allModelState objectState
        (fst (exec allModelState objectState
           [Outside (\<lambda>w. w\<lparr>Date_now := 1016\<rparr>), Frame, Settle 0 (resolved JNull)]
           (fst (step allModelState objectState Frame (sample_world, []))))))) = Returned
   \<and> filter is_detection (fst (snd (predictWebcam_start allModelState objectState
        (fst (exec allModelState objectState
           [Outside (\<lambda>w. w\<lparr>Date_now := 1016\<rparr>), Frame, Settle 0 (resolved JNull)]
           (fst (step allModelState objectState Frame (sample_world, []))))))))
     = []"
proof -
  have h1: "videoWidth (video sample_world) \<noteq> 0" and h2: "videoHeight (video sample_world) \<noteq> 0"
    by (simp_all add: sample_world_def)
  have h3: "same_time_seen (currentTime (video sample_world)) allModelState objectState
        [Outside (\<lambda>w. w\<lparr>Date_now := 1016\<rparr>), Frame, Settle 0 (resolved JNull)]
        (fst (step allModelState objectState Frame (sample_world, [])))"
    by (simp add: split_beta start_keeps_video)
  have h4: "currentTime (video (fst (exec allModelState objectState
        [Outside (\<lambda>w. w\<lparr>Date_now := 1016\<rparr>), Frame, Settle 0 (resolved JNull)]
        (fst (step allModelState objectState Frame (sample_world, []))))))
     = currentTime (video sample_world)"
    by (simp add: split_beta start_keeps_video resume_keeps_time)
  have t: "currentTime (video sample_world) = 1 / 2" by (simp add: sample_world_def)
  from lastVideoTime_set_before_await [OF h1 h2 h3 h4] h1 h2 h3 h4
  show ?thesis by (simp only: t) blast
qed

lemma run_Rejected: "run ins w Rejected = (w, [], Rejected)"
  by (cases ins) simp_all

lemma loop_run_shape:
  "snd (snd (run ins w (snd (detect_loop ls obj t sd w)))) = Returned \<Longrightarrow>
   \<exists>pre. fst (detect_loop ls obj t sd w) @ fst (snd (run ins w (snd (detect_loop ls obj t sd w))))
          = pre @ after_detection obj sd (fst (run ins w (snd (detect_loop ls obj t sd w))))
        \<and> (\<forall>e \<in> set pre. \<not> is_draw e \<and> e \<noteq> requestAnimationFrame)"
proof (induction ls arbitrary: w ins)
  case Nil
  show ?case by (simp add: run_Returned)
next
  case (Cons l ls)
  show ?case
  proof (cases "enabled w l")
    case False
    then have skip: "detect_loop (l # ls) obj t sd w = detect_loop ls obj t sd w"
      by (auto simp: enabled_def)
    from Cons.IH [of ins w] Cons.prems show ?thesis unfolding skip by simp
  next
    case True
    then have call: "detect_loop (l # ls) obj t sd w = ([detection_call l w t], Awaiting l ls obj t sd)"
      by (simp add: enabled_def)
    show ?thesis
    proof (cases ins)
      case Nil
      with Cons.prems call show ?thesis by simp
    next
      case (Cons x ins')
      obtain env out where x: "x = (env, out)" by (cases x)
      show ?thesis
      proof (cases out)
        case rejected
        with Cons.prems call Cons x show ?thesis by (simp add: run_Rejected)
      next
        case (resolved r)
        define w1 where "w1 = (env w)\<lparr>models := (models (env w))(l := (models (env w) l)\<lparr>results := r\<rparr>)\<rparr>"
        define msg where "msg = safeSocketSend (socketState_ws w1)
                (JSON_stringify (result_message (resultsName (models w1 l)) r
                   (videoWidth (video w1)) (videoHeight (video w1))))"
        have res: "predictWebcam_resume (Awaiting l ls obj t sd) out (env w)
           = (w1, msg @ fst (detect_loop ls obj t sd w1), snd (detect_loop ls obj t sd w1))"
          by (simp add: resolved w1_def msg_def Let_def split_beta)
        have runeq: "run ins w (Awaiting l ls obj t sd)
           = (fst (run ins' w1 (snd (detect_loop ls obj t sd w1))),
              (msg @ fst (detect_loop ls obj t sd w1))
                @ fst (snd (run ins' w1 (snd (detect_loop ls obj t sd w1)))),
              snd (snd (run ins' w1 (snd (detect_loop ls obj t sd w1)))))"
          unfolding Cons x by (simp only: run.simps res Let_def split_beta fst_conv snd_conv)
        from Cons.prems have "snd (snd (run ins' w1 (snd (detect_loop ls obj t sd w1)))) = Returned"
          unfolding call snd_conv runeq by simp
        from Cons.IH [OF this] obtain pre where
          pre: "fst (detect_loop ls obj t sd w1) @ fst (snd (run ins' w1 (snd (detect_loop ls obj t sd w1))))
                = pre @ after_detection obj sd (fst (run ins' w1 (snd (detect_loop ls obj t sd w1))))"
          and clean: "\<forall>e \<in> set pre. \<not> is_draw e \<and> e \<noteq> requestAnimationFrame"
          by blast
        have msgclean: "\<forall>e \<in> set msg. \<not> is_draw e \<and> e \<noteq> requestAnimationFrame"
          by (simp add: msg_def safeSocketSend_def)
        have callclean: "\<not> is_draw (detection_call l w t) \<and> detection_call l w t \<noteq> requestAnimationFrame"
          by (simp add: detection_call_def)
        have "fst (detect_loop (l # ls) obj t sd w)
                @ fst (snd (run ins w (snd (detect_loop (l # ls) obj t sd w))))
              = (detection_call l w t # msg @ pre)
                @ after_detection obj sd (fst (run ins w (snd (detect_loop (l # ls) obj t sd w))))"
          unfolding call snd_conv fst_conv runeq using pre by simp
        moreover have "\<forall>e \<in> set (detection_call l w t # msg @ pre). \<not> is_draw e \<and> e \<noteq> requestAnimationFrame"
          using clean msgclean callclean by auto
        ultimately show ?thesis by blast
      qed
    qed
  qed
qed

lemma flag_apart_running: "flag_apart w (w\<lparr>webcamState := (webcamState w)\<lparr>webcamRunning := b\<rparr>\<rparr>)"
  by (simp add: flag_apart_def)

lemma draw_landmarkers_apart: "flag_apart w w' \<Longrightarrow> draw_landmarkers ls w' = draw_landmarkers ls w"
  by (induction ls) (simp_all add: flag_apart_def)

lemma after_detection_apart:
  "flag_apart w w' \<Longrightarrow>
   filter (\<lambda>e. e \<noteq> requestAnimationFrame) (after_detection obj sd w')
   = filter (\<lambda>e. e \<noteq> requestAnimationFrame) (after_detection obj sd w)"
proof -
  assume apart: "flag_apart w w'"
  then have eqs: "models w' = models w" "socketState_ws w' = socketState_ws w"
    "overlayState_show w' = overlayState_show w" "Date_later w' = Date_later w"
    by (simp_all add: flag_apart_def)
  have "draw_overlays obj w' = draw_overlays obj w"
    by (simp add: draw_overlays_def draw_landmarkers_apart [OF apart] eqs)
  then show ?thesis
    by (simp add: after_detection_def eqs)
qed

lemma detect_loop_apart:
  "flag_apart w w' \<Longrightarrow>
   filter (\<lambda>e. e \<noteq> requestAnimationFrame) (fst (detect_loop ls obj t sd w'))
   = filter (\<lambda>e. e \<noteq> requestAnimationFrame) (fst (detect_loop ls obj t sd w))
   \<and> snd (detect_loop ls obj t sd w') = snd (detect_loop ls obj t sd w)"
proof (induction ls)
  case Nil
  then show ?case using after_detection_apart [where w = w and w' = w' and obj = obj and sd = sd] by simp
next
  case (Cons l ls)
  from Cons.prems have "models w' = models w" by (simp add: flag_apart_def)
  with Cons show ?case by (auto simp: detection_call_def)
qed

lemma start_apart:
  assumes "flag_apart w w'"
  shows "filter (\<lambda>e. e \<noteq> requestAnimationFrame) (fst (snd (predictWebcam_start allModels obj w')))
         = filter (\<lambda>e. e \<noteq> requestAnimationFrame) (fst (snd (predictWebcam_start allModels obj w)))
       \<and> snd (snd (predictWebcam_start allModels obj w'))
         = snd (snd (predictWebcam_start allModels obj w))"
proof -
  from assms have eqs: "video w' = video w" "Date_now w' = Date_now w"
    "performance_now w' = performance_now w"
    "lastVideoTime (webcamState w') = lastVideoTime (webcamState w)"
    by (simp_all add: flag_apart_def)
  from assms have a1: "flag_apart (w\<lparr>canvasElement := c, objectsDiv := d\<rparr>)
      (w'\<lparr>canvasElement := c, objectsDiv := d\<rparr>)" for c d
    by (simp add: flag_apart_def)
  from assms have a2: "flag_apart
      (w\<lparr>canvasElement := c, objectsDiv := d, webcamState := (webcamState w)\<lparr>lastVideoTime := x\<rparr>\<rparr>)
      (w'\<lparr>canvasElement := c, objectsDiv := d, webcamState := (webcamState w')\<lparr>lastVideoTime := x\<rparr>\<rparr>)"
    for c d x
    by (simp add: flag_apart_def)
  show ?thesis
    using after_detection_apart [OF a1 [where c = "resize (video w)" and d = "resize (video w)"],
        where obj = obj and sd = "Date_now w"]
      detect_loop_apart [OF a2 [where c = "resize (video w)" and d = "resize (video w)"
          and x = "currentTime (video w)"],
        where ls = allModels and obj = obj and t = "performance_now w" and sd = "Date_now w"]
    by (simp add: predictWebcam_start_def Let_def eqs)
qed

lemma resume_apart:
  assumes "flag_apart w w'"
  shows "filter (\<lambda>e. e \<noteq> requestAnimationFrame) (fst (snd (predictWebcam_resume t out w')))
         = filter (\<lambda>e. e \<noteq> requestAnimationFrame) (fst (snd (predictWebcam_resume t out w)))
       \<and> snd (snd (predictWebcam_resume t out w')) = snd (snd (predictWebcam_resume t out w))"
proof (cases t)
  case (Awaiting l rest obj st sd)
  show ?thesis
  proof (cases out)
    case (resolved r)
    from assms have eqs: "models w' = models w" "socketState_ws w' = socketState_ws w"
      "video w' = video w"
      by (simp_all add: flag_apart_def)
    from assms have a: "flag_apart (w\<lparr>models := m\<rparr>) (w'\<lparr>models := m\<rparr>)" for m
      by (simp add: flag_apart_def)
    show ?thesis
      using detect_loop_apart [OF a [where m = "(models w)(l := (models w l)\<lparr>results := r\<rparr>)"],
          where ls = rest and obj = obj and t = st and sd = sd]
      by (simp add: Awaiting resolved Let_def split_beta safeSocketSend_def eqs)
  next
    case rejected
    then show ?thesis by (simp add: Awaiting)
  qed
qed simp_all

text \<open>
  C8, with the size guard taken into account: an invocation that passes the size guard and runs to its end calls
  \<^verbatim>\<open>requestAnimationFrame\<close> exactly when \<^verbatim>\<open>webcamRunning\<close> is true at that point, after all
  detection calls and overlays of the frame; and in no stretch of the function does the
  flag change anything but whether that one call is made.
\<close>

theorem reschedule_when_running:
  assumes dims: "videoWidth (video w) \<noteq> 0" "videoHeight (video w) \<noteq> 0"
    and fin: "snd (snd (predictWebcam allModels obj ins w)) = Returned"
  shows "(requestAnimationFrame \<in> set (fst (snd (predictWebcam allModels obj ins w)))
          \<longleftrightarrow> webcamRunning (webcamState (fst (predictWebcam allModels obj ins w))))
       \<and> (\<exists>pre. fst (snd (predictWebcam allModels obj ins w))
                = pre @ draw_overlays obj (fst (predictWebcam allModels obj ins w))
                  @ (if webcamRunning (webcamState (fst (predictWebcam allModels obj ins w)))
                     then [requestAnimationFrame] else [])
                  @ safeSocketSend (socketState_ws (fst (predictWebcam allModels obj ins w)))
                      (JSON_stringify (timing_message
                         (Date_later (fst (predictWebcam allModels obj ins w)) - Date_now w)))
              \<and> (\<forall>e \<in> set pre. \<not> is_draw e \<and> e \<noteq> requestAnimationFrame))
       \<and> filter (\<lambda>e. e \<noteq> requestAnimationFrame)
           (fst (snd (predictWebcam_start allModels obj
              (w0\<lparr>webcamState := (webcamState w0)\<lparr>webcamRunning := b\<rparr>\<rparr>))))
         = filter (\<lambda>e. e \<noteq> requestAnimationFrame)
             (fst (snd (predictWebcam_start allModels obj w0)))
       \<and> snd (snd (predictWebcam_start allModels obj
              (w0\<lparr>webcamState := (webcamState w0)\<lparr>webcamRunning := b\<rparr>\<rparr>)))
         = snd (snd (predictWebcam_start allModels obj w0))
       \<and> filter (\<lambda>e. e \<noteq> requestAnimationFrame)
           (fst (snd (predictWebcam_resume t0 out0
              (w0\<lparr>webcamState := (webcamState w0)\<lparr>webcamRunning := b\<rparr>\<rparr>))))
         = filter (\<lambda>e. e \<noteq> requestAnimationFrame)
             (fst (snd (predictWebcam_resume t0 out0 w0)))
       \<and> snd (snd (predictWebcam_resume t0 out0
              (w0\<lparr>webcamState := (webcamState w0)\<lparr>webcamRunning := b\<rparr>\<rparr>)))
         = snd (snd (predictWebcam_resume t0 out0 w0))"
proof -
  let ?R = "predictWebcam allModels obj ins w"
  have shape: "\<exists>pre. fst (snd ?R) = pre @ after_detection obj (Date_now w) (fst ?R)
                 \<and> (\<forall>e \<in> set pre. \<not> is_draw e \<and> e \<noteq> requestAnimationFrame)"
  proof (cases "time_seen w")
    case True
    have "fst (snd ?R) = [] @ after_detection obj (Date_now w) (fst ?R)"
      unfolding predictWebcam_skipped [OF dims True] by simp
    then show ?thesis by fastforce
  next
    case False
    note P = predictWebcam_processed [OF dims False, of allModels obj ins]
    from fin have "snd (snd (run ins (entered w)
        (snd (detect_loop allModels obj (performance_now w) (Date_now w) (entered w))))) = Returned"
      unfolding P by simp
    from loop_run_shape [OF this] show ?thesis unfolding P by simp
  qed
  then obtain pre where evs: "fst (snd ?R) = pre @ after_detection obj (Date_now w) (fst ?R)"
    and clean: "\<forall>e \<in> set pre. \<not> is_draw e \<and> e \<noteq> requestAnimationFrame"
    by blast
  have nodraw: "requestAnimationFrame \<notin> set (draw_overlays obj (fst ?R))"
    using draw_overlays_only_draw [of requestAnimationFrame obj "fst ?R"] by auto
  have "requestAnimationFrame \<in> set (fst (snd ?R)) \<longleftrightarrow> webcamRunning (webcamState (fst ?R))"
    unfolding evs using clean nodraw
    by (auto simp: after_detection_def safeSocketSend_def)
  moreover have "fst (snd ?R) = pre @ draw_overlays obj (fst ?R)
                  @ (if webcamRunning (webcamState (fst ?R)) then [requestAnimationFrame] else [])
                  @ safeSocketSend (socketState_ws (fst ?R))
                      (JSON_stringify (timing_message (Date_later (fst ?R) - Date_now w)))"
    using evs by (simp add: after_detection_def)
  ultimately have "(requestAnimationFrame \<in> set (fst (snd ?R)) \<longleftrightarrow> webcamRunning (webcamState (fst ?R)))
       \<and> (\<exists>pre. fst (snd ?R) = pre @ draw_overlays obj (fst ?R)
                  @ (if webcamRunning (webcamState (fst ?R)) then [requestAnimationFrame] else [])
                  @ safeSocketSend (socketState_ws (fst ?R))
                      (JSON_stringify (timing_message (Date_later (fst ?R) - Date_now w)))
              \<and> (\<forall>e \<in> set pre. \<not> is_draw e \<and> e \<noteq> requestAnimationFrame))"
    using clean by blast
  with start_apart [OF flag_apart_running [where w = w0 and b = b],
      where allModels = allModels and obj = obj]
    resume_apart [OF flag_apart_running [where w = w0 and b = b], where t = t0 and out = out0]
  show ?thesis by blast
qed

text \<open>
  C8 as stated fails: with \<^verbatim>\<open>webcamRunning\<close> true and a video of width zero, the invocation
  ends without scheduling a next one.
\<close>

theorem sole_cancellation_counterexample:
  "webcamRunning (webcamState dark_world)
   \<and> requestAnimationFrame \<notin> set (fst (snd (predictWebcam allModelState objectState [] dark_world)))"
proof -
  have "videoWidth (video dark_world) = 0 \<or> videoHeight (video dark_world) = 0"
    by (simp add: dark_world_def)
  then have "predictWebcam allModelState objectState [] dark_world
     = (dark_world, [console_log ''videoWidth or videoHeight is 0'' []], Returned)"
    by (rule predictWebcam_zero)
  then show ?thesis by (simp add: dark_world_def sample_world_def)
qed

lemma sample_returns:
  "snd (snd (predictWebcam allModelState objectState sample_inputs sample_world)) = Returned"
proof -
  have "snd (predictWebcam allModelState objectState sample_inputs sample_world)
     = (dispatched sample_world (performance_now sample_world)
               (zip (filter (enabled sample_world) allModelState)
                  (map (\<lambda>x. value_of (snd x)) sample_inputs))
             @ after_detection objectState (Date_now sample_world)
                 (fst (predictWebcam allModelState objectState sample_inputs sample_world)),
             Returned)"
    by (rule processed_run(1))
      (simp_all add: sample_enabled sample_inputs_def steady_same,
        simp_all add: sample_world_def time_seen_def)
  then show ?thesis by simp
qed

theorem reschedule_when_running_witness:
  "videoWidth (video sample_world) \<noteq> 0 \<and> videoHeight (video sample_world) \<noteq> 0
   \<and> snd (snd (predictWebcam allModelState objectState sample_inputs sample_world)) = Returned
   \<and> (requestAnimationFrame
        \<in> set (fst (snd (predictWebcam allModelState objectState sample_inputs sample_world)))
      \<longleftrightarrow> webcamRunning
            (webcamState (fst (predictWebcam allModelState objectState sample_inputs sample_world))))"
proof -
  have h1: "videoWidth (video sample_world) \<noteq> 0" and h2: "videoHeight (video sample_world) \<noteq> 0"
    by (simp_all add: sample_world_def)
  from reschedule_when_running [OF h1 h2 sample_returns,
      where ?w0.0 = sample_world and b = True and ?t0.0 = Returned and ?out0.0 = rejected]
    h1 h2 sample_returns
  show ?thesis by blast
qed

lemma filter_detection_dispatched:
  "filter is_detection (dispatched w t lrs) = map (\<lambda>x. detection_call (fst x) w t) lrs"
proof (induction lrs)
  case Nil
  show ?case by simp
next
  case (Cons x lrs)
  obtain l r where x: "x = (l, r)" by (cases x)
  from Cons show ?case by (simp add: x safeSocketSend_def)
qed

lemma dispatched_no_draw: "e \<in> set (dispatched w t lrs) \<Longrightarrow> \<not> is_draw e"
proof (induction lrs)
  case Nil
  then show ?case by simp
next
  case (Cons x lrs)
  obtain l r where x: "x = (l, r)" by (cases x)
  from Cons show ?case
    by (auto simp: x safeSocketSend_def detection_call_def split: if_splits)
qed

lemma filter_none: "(\<And>e. e \<in> set xs \<Longrightarrow> \<not> P e) \<Longrightarrow> filter P xs = []"
  by (induction xs) simp_all

lemma filter_all: "(\<And>e. e \<in> set xs \<Longrightarrow> P e) \<Longrightarrow> filter P xs = xs"
  by (induction xs) simp_all

lemma filter_draw_after: "filter is_draw (after_detection obj sd w) = draw_overlays obj w"
  by (simp add: after_detection_def safeSocketSend_def filter_all [OF draw_overlays_only_draw])

lemma calls_before_draws:
  assumes "\<forall>e \<in> set xs. \<not> is_draw e" and "\<forall>e \<in> set ys. \<not> is_detection e"
    and "i < length (xs @ ys)" and "j < length (xs @ ys)"
    and "is_detection ((xs @ ys) ! i)" and "is_draw ((xs @ ys) ! j)"
  shows "i < j"
proof -
  have "i < length xs"
  proof (rule ccontr)
    assume "\<not> i < length xs"
    with assms(3) have "(xs @ ys) ! i \<in> set ys" by (simp add: nth_append)
    with assms(2,5) show False by blast
  qed
  moreover have "\<not> j < length xs"
  proof
    assume "j < length xs"
    then have "(xs @ ys) ! j \<in> set xs" by (simp add: nth_append)
    with assms(1,6) show False by blast
  qed
  ultimately show ?thesis by simp
qed

lemma detect_loop_cases:
  "(\<exists>l rest. detect_loop ls obj t sd w = ([detection_call l w t], Awaiting l rest obj t sd))
   \<or> detect_loop ls obj t sd w = (after_detection obj sd w, Returned)"
  by (induction ls) auto

lemma detect_loop_one_call:
  "\<forall>e \<in> set pre. \<not> is_detection e \<Longrightarrow>
   one_call_then_wait (w', pre @ fst (detect_loop ls obj t sd w), snd (detect_loop ls obj t sd w))"
proof -
  assume pre: "\<forall>e \<in> set pre. \<not> is_detection e"
  then have none: "filter is_detection pre = []" by (simp add: filter_none)
  from detect_loop_cases [of ls obj t sd w] show ?thesis
  proof
    assume "\<exists>l rest. detect_loop ls obj t sd w = ([detection_call l w t], Awaiting l rest obj t sd)"
    then show ?thesis by (auto simp: one_call_then_wait_def none)
  next
    assume "detect_loop ls obj t sd w = (after_detection obj sd w, Returned)"
    then show ?thesis
      by (simp add: one_call_then_wait_def none
          filter_none [of "after_detection obj sd w", OF after_detection_no_detection])
  qed
qed

lemma start_one_call: "one_call_then_wait (predictWebcam_start allModels obj w)"
proof (cases "videoWidth (video w) = 0 \<or> videoHeight (video w) = 0")
  case True
  then show ?thesis by (auto simp: predictWebcam_start_def one_call_then_wait_def)
next
  case False
  have "one_call_then_wait (w', after_detection obj sd w'', Returned)" for w' sd w''
    using detect_loop_one_call [of "[]" w' "[]" obj 0 sd w''] by simp
  with False show ?thesis
    using detect_loop_one_call [of "[]"]
    by (simp add: predictWebcam_start_def Let_def split_beta del: detect_loop.simps)
qed

lemma resume_one_call: "one_call_then_wait (predictWebcam_resume t out w)"
proof (cases t)
  case (Awaiting l rest obj st sd)
  show ?thesis
  proof (cases out)
    case (resolved r)
    have "\<forall>e \<in> set (safeSocketSend ws p). \<not> is_detection e" for ws p
      by (simp add: safeSocketSend_def)
    from detect_loop_one_call [OF this] show ?thesis
      by (simp add: Awaiting resolved Let_def split_beta del: detect_loop.simps)
  next
    case rejected
    then show ?thesis by (simp add: Awaiting one_call_then_wait_def)
  qed
qed (simp_all add: one_call_then_wait_def)

text \<open>
  C7: in a processed frame whose detection calls all resolve, while the rest of the page
  leaves the enabled set, the result names, the connection and the video size alone, the
  detection calls are those of the
  enabled models in registry order, made through \<^verbatim>\<open>recognizeForVideo\<close> for the model whose
  result name is \<^verbatim>\<open>gestureResults\<close> and through \<^verbatim>\<open>detectForVideo\<close> for every other; the
  draw calls are those of the four landmarker models in registry order through
  \<^verbatim>\<open>draw(results, drawingUtils)\<close>, then the object model through its own \<^verbatim>\<open>draw()\<close>; every
  detection call comes before every draw call; and no stretch of the function makes a
  second detection call before the first has settled.
\<close>

theorem detection_before_drawing:
  assumes dims: "videoWidth (video w) \<noteq> 0" "videoHeight (video w) \<noteq> 0"
    and fresh: "\<not> time_seen w"
    and quiet: "undisturbed ins"
    and enough: "length (filter (enabled w) allModels) \<le> length ins"
  shows "filter is_detection (fst (snd (predictWebcam allModels obj ins w)))
         = map (\<lambda>l. if resultsName (models w l) = ''gestureResults''
                     then recognizeForVideo l (the (landmarker (models w l))) (performance_now w)
                     else detectForVideo l (the (landmarker (models w l))) (performance_now w))
             (filter (enabled w) allModels)
       \<and> filter is_draw (fst (snd (predictWebcam allModels obj ins w)))
         = (if overlayState_show (fst (predictWebcam allModels obj ins w))
            then map (\<lambda>l. draw l (results (models (fst (predictWebcam allModels obj ins w)) l))
                           (drawingUtils (webcamState (fst (predictWebcam allModels obj ins w)))))
                   (filter (\<lambda>l. detect (models (fst (predictWebcam allModels obj ins w)) l)
                              \<and> truthy (results (models (fst (predictWebcam allModels obj ins w)) l)))
                      [faceLandmarkState, handState, gestureState, poseState])
                 @ (if detect (models (fst (predictWebcam allModels obj ins w)) obj)
                       \<and> truthy (results (models (fst (predictWebcam allModels obj ins w)) obj))
                    then [draw_noargs obj] else [])
            else [])
       \<and> (\<forall>i j. i < length (fst (snd (predictWebcam allModels obj ins w)))
              \<and> j < length (fst (snd (predictWebcam allModels obj ins w)))
              \<and> is_detection (fst (snd (predictWebcam allModels obj ins w)) ! i)
              \<and> is_draw (fst (snd (predictWebcam allModels obj ins w)) ! j)
              \<longrightarrow> i < j)
       \<and> one_call_then_wait (predictWebcam_start allModels obj w0)
       \<and> one_call_then_wait (predictWebcam_resume t0 out0 w0)"
proof -
  let ?R = "predictWebcam allModels obj ins w"
  let ?lrs = "zip (filter (enabled w) allModels) (map (\<lambda>x. value_of (snd x)) ins)"
  from quiet have ins: "\<forall>x \<in> set ins. steady (fst x) \<and> is_resolved (snd x)"
    by (simp add: undisturbed_def)
  from processed_run(1) [OF dims fresh ins enough]
  have evs: "fst (snd ?R) = dispatched w (performance_now w) ?lrs
                @ after_detection obj (Date_now w) (fst ?R)"
    by simp
  have "map fst ?lrs = filter (enabled w) allModels"
    using enough by (simp add: map_fst_zip_take)
  then have calls: "map (\<lambda>x. detection_call (fst x) w (performance_now w)) ?lrs
     = map (\<lambda>l. detection_call l w (performance_now w)) (filter (enabled w) allModels)"
    by (metis (no_types, lifting) map_map o_def map_eq_conv)
  have "filter is_detection (fst (snd ?R))
         = map (\<lambda>l. detection_call l w (performance_now w)) (filter (enabled w) allModels)"
    unfolding evs
    by (simp add: filter_detection_dispatched calls
        filter_none [of "after_detection obj (Date_now w) (fst ?R)", OF after_detection_no_detection])
  then have c1: "filter is_detection (fst (snd ?R))
         = map (\<lambda>l. if resultsName (models w l) = ''gestureResults''
                     then recognizeForVideo l (the (landmarker (models w l))) (performance_now w)
                     else detectForVideo l (the (landmarker (models w l))) (performance_now w))
             (filter (enabled w) allModels)"
    by (simp add: detection_call_def)
  have c2: "filter is_draw (fst (snd ?R)) = draw_overlays obj (fst ?R)"
    unfolding evs
    by (simp add: filter_draw_after
        filter_none [of "dispatched w (performance_now w) ?lrs", OF dispatched_no_draw])
  have nd: "\<forall>e \<in> set (dispatched w (performance_now w) ?lrs). \<not> is_draw e"
    by (blast dest: dispatched_no_draw)
  have nc: "\<forall>e \<in> set (after_detection obj (Date_now w) (fst ?R)). \<not> is_detection e"
    by (blast dest: after_detection_no_detection)
  have c3: "\<forall>i j. i < length (fst (snd ?R)) \<and> j < length (fst (snd ?R))
              \<and> is_detection (fst (snd ?R) ! i) \<and> is_draw (fst (snd ?R) ! j) \<longrightarrow> i < j"
    unfolding evs using calls_before_draws [OF nd nc] by blast
  from c1 c2 c3 start_one_call [of allModels obj w0] resume_one_call [of t0 out0 w0]
  show ?thesis
    by (simp add: draw_overlays_def draw_landmarkers_map landmarkerModelState_def)
qed

theorem detection_before_drawing_witness:
  "videoWidth (video sample_world) \<noteq> 0 \<and> videoHeight (video sample_world) \<noteq> 0
   \<and> \<not> time_seen sample_world
   \<and> undisturbed sample_inputs
   \<and> length (filter (enabled sample_world) allModelState) \<le> length sample_inputs
   \<and> filter is_detection (fst (snd (predictWebcam allModelState objectState sample_inputs sample_world)))
     = [detectForVideo handState 1 12, recognizeForVideo gestureState 2 12]
   \<and> one_call_then_wait (predictWebcam_start allModelState objectState sample_world)"
proof -
  have h1: "videoWidth (video sample_world) \<noteq> 0" and h2: "videoHeight (video sample_world) \<noteq> 0"
    by (simp_all add: sample_world_def)
  have h3: "\<not> time_seen sample_world" by (simp add: time_seen_def sample_world_def)
  have h4: "undisturbed sample_inputs"
    by (simp add: undisturbed_def sample_inputs_def steady_same)
  have h5: "length (filter (enabled sample_world) allModelState) \<le> length sample_inputs"
    by (simp add: sample_enabled sample_inputs_def)
  have vals: "resultsName (models sample_world handState) = ''handResults''"
    "resultsName (models sample_world gestureState) = ''gestureResults''"
    "landmarker (models sample_world handState) = Some 1"
    "landmarker (models sample_world gestureState) = Some 2"
    "performance_now sample_world = 12"
    by (simp_all add: sample_world_def)
  note T = detection_before_drawing [OF h1 h2 h3 h4 h5, of objectState sample_world Returned rejected]
  from T have "filter is_detection
       (fst (snd (predictWebcam allModelState objectState sample_inputs sample_world)))
     = [detectForVideo handState 1 12, recognizeForVideo gestureState 2 12]"
    by (simp add: sample_enabled vals)
  with T h1 h2 h3 h4 h5 show ?thesis by blast
qed

lemma throwing_is_no_device: "to_primitive_throws dev \<Longrightarrow> \<not> checkDeviceIds dev ds"
  by (auto simp: checkDeviceIds_iff_set)

text \<open>
  C3: on a message whose \<^verbatim>\<open>type\<close> is \<^verbatim>\<open>selectWebcam\<close>, the state afterwards has \<^verbatim>\<open>webcamId\<close>
  set to the given device id when the id is among \<^verbatim>\<open>webcamDevices\<close> and is the old state
  otherwise; the capture request is made after that, with the \<^verbatim>\<open>webcamId\<close> of the resulting
  state. (A device id that cannot be written into the log line ends the handler before the
  check; it is in no device list.)
\<close>

theorem selectWebcam_validated:
  assumes ty: "get_prop d ''type'' = Inr ty" "\<not> to_primitive_throws ty" "loose_eq_selectWebcam ty"
    and dev: "get_prop d ''deviceId'' = Inr dev"
  shows "fst (on_message configMap (Document d) w)
         = (if checkDeviceIds dev (webcamDevices (webcamState w))
            then w\<lparr>webcamState := (webcamState w)\<lparr>webcamId := dev\<rparr>\<rparr> else w)
       \<and> (checkDeviceIds dev (webcamDevices (webcamState w))
            \<longleftrightarrow> (\<exists>x \<in> set (webcamDevices (webcamState w)). JStr (deviceId x) = dev))
       \<and> (\<not> to_primitive_throws dev \<longrightarrow>
            snd (on_message configMap (Document d) w)
            = ([console_log ''Data received: '' [d],
                console_log ''Got webcamId via WS: '' [dev],
                getUserMedia (webcamId (webcamState (fst (on_message configMap (Document d) w))))],
               None))
       \<and> (to_primitive_throws dev \<longrightarrow>
            snd (on_message configMap (Document d) w)
            = ([console_log ''Data received: '' [d]], Some TypeError))"
proof (intro conjI impI)
  show "fst (on_message configMap (Document d) w)
         = (if checkDeviceIds dev (webcamDevices (webcamState w))
            then w\<lparr>webcamState := (webcamState w)\<lparr>webcamId := dev\<rparr>\<rparr> else w)"
    using ty dev throwing_is_no_device [of dev "webcamDevices (webcamState w)"]
    by (simp add: on_message_def Let_def)
  show "checkDeviceIds dev (webcamDevices (webcamState w))
            \<longleftrightarrow> (\<exists>x \<in> set (webcamDevices (webcamState w)). JStr (deviceId x) = dev)"
    by (rule checkDeviceIds_iff_set)
next
  assume "\<not> to_primitive_throws dev"
  with ty dev show "snd (on_message configMap (Document d) w)
            = ([console_log ''Data received: '' [d],
                console_log ''Got webcamId via WS: '' [dev],
                getUserMedia (webcamId (webcamState (fst (on_message configMap (Document d) w))))],
               None)"
    by (simp add: on_message_def Let_def enableCam_def)
next
  assume "to_primitive_throws dev"
  with ty dev show "snd (on_message configMap (Document d) w)
            = ([console_log ''Data received: '' [d]], Some TypeError)"
    by (simp add: on_message_def Let_def)
qed

theorem selectWebcam_validated_witness:
  "get_prop select_abc ''type'' = Inr (JStr ''selectWebcam'')
   \<and> \<not> to_primitive_throws (JStr ''selectWebcam'')
   \<and> loose_eq_selectWebcam (JStr ''selectWebcam'')
   \<and> get_prop select_abc ''deviceId'' = Inr (JStr ''abc'')
   \<and> checkDeviceIds (JStr ''abc'') (webcamDevices (webcamState sample_world))
   \<and> \<not> to_primitive_throws (JStr ''abc'')
   \<and> fst (on_message Map.empty (Document select_abc) sample_world)
     = sample_world\<lparr>webcamState := (webcamState sample_world)\<lparr>webcamId := JStr ''abc''\<rparr>\<rparr>
   \<and> snd (on_message Map.empty (Document select_abc) sample_world)
     = ([console_log ''Data received: '' [select_abc],
         console_log ''Got webcamId via WS: '' [JStr ''abc''],
         getUserMedia (JStr ''abc'')], None)"
proof -
  have h1: "get_prop select_abc ''type'' = Inr (JStr ''selectWebcam'')"
    and h4: "get_prop select_abc ''deviceId'' = Inr (JStr ''abc'')"
    by (simp_all add: select_abc_def)
  have h2: "\<not> to_primitive_throws (JStr ''selectWebcam'')"
    and h3: "loose_eq_selectWebcam (JStr ''selectWebcam'')"
    and h6: "\<not> to_primitive_throws (JStr ''abc'')"
    by simp_all
  have h5: "checkDeviceIds (JStr ''abc'') (webcamDevices (webcamState sample_world))"
    by (simp add: checkDeviceIds_iff_set sample_world_def)
  note T = selectWebcam_validated [OF h1 h2 h3 h4, of Map.empty sample_world]
  from T h5 have w': "fst (on_message Map.empty (Document select_abc) sample_world)
     = sample_world\<lparr>webcamState := (webcamState sample_world)\<lparr>webcamId := JStr ''abc''\<rparr>\<rparr>"
    by simp
  from T h6 have "snd (on_message Map.empty (Document select_abc) sample_world)
     = ([console_log ''Data received: '' [select_abc],
         console_log ''Got webcamId via WS: '' [JStr ''abc''],
         getUserMedia (JStr ''abc'')], None)"
    by (simp add: w')
  with h1 h2 h3 h4 h5 h6 w' show ?thesis by blast
qed

lemma handleQueryParams_unknown:
  "\<forall>p \<in> set ps. \<not> js_in (fst p) configMap \<Longrightarrow> handleQueryParams configMap ps w = (w, None)"
  by (induction ps) auto

lemma apply_entries_unknown:
  "\<forall>p \<in> set ps. \<not> js_in (fst p) configMap \<Longrightarrow> apply_entries configMap ps w = (w, [], None)"
  by (induction ps) auto

text \<open>
  C5 fails on the code: \<^verbatim>\<open>__proto__\<close> need not be an option of the Config map, yet
  \<^verbatim>\<open>'__proto__' in configMap\<close> is true, the looked-up value is called, and the call throws,
  from a query parameter as well as from an inbound message.
\<close>

theorem inherited_key_throws:
  "configMap ''__proto__'' = None \<Longrightarrow>
   handleQueryParams configMap [(''__proto__'', v)] w = (w, Some TypeError)
   \<and> on_message configMap (Document (JObj [(''__proto__'', JNum 1)])) w
     = (w, [console_log ''Data received: '' [JObj [(''__proto__'', JNum 1)]],
            console_log ''Got WS dats: '' [JStr ''__proto__'', JStr '' : '', JNum 1]],
        Some TypeError)"
proof -
  assume own: "configMap ''__proto__'' = None"
  have inh: "js_in ''__proto__'' configMap"
    by (simp add: js_in_def Object_prototype_keys_def)
  from own have call: "call_config configMap ''__proto__'' x w = Inl TypeError" for x
    by (simp add: call_config_def)
  show ?thesis
    by (simp add: inh call on_message_def)
qed

theorem inherited_key_throws_witness:
  "Map.empty ''__proto__'' = (None :: (jsval \<Rightarrow> world \<Rightarrow> world) option)
   \<and> handleQueryParams Map.empty [(''__proto__'', ''1'')] sample_world
     = (sample_world, Some TypeError)"
  using inherited_key_throws [of Map.empty "''1''" sample_world] by simp

end
